theory Spec2Isabelle
  imports Main "HOL-Library.Sublist" "HOL-Library.AList"
begin

section \<open>The fragment of Python's \<open>re\<close> that \<open>GIST_PATTERN\<close> uses\<close>

text \<open>
  \<open>jist.py\<close> uploads Jupyter notebooks to GitHub gists through the \<open>gh\<close> client and
  records the gist's link in the notebook's first cell. The link is found with one regular
  expression (line 17):

  \<^verbatim>\<open>GIST_PATTERN = re.compile(r"https?://gist.github.com/(?P<GistId>[a-zA-Z0-9/_-]+)")\<close>

  The expression is kept as data and interpreted by a backtracking matcher, as Python's
  \<open>re\<close> does. An atom matches one character: a literal, the dot (any character but the
  newline, the flag \<open>DOTALL\<close> being unset) or a character class of ranges and single
  characters. A piece is an atom taken once, optionally (\<open>?\<close>, greedy) or one or more
  times (\<open>+\<close>, greedy). The pattern is a sequence of pieces followed by its one named
  group. Python strings are modelled as \<open>string\<close>.
\<close>

datatype class_item = Range char char | Single char

datatype atom = Lit char | AnyChar | OneOf "class_item list"

datatype piece = One atom | Opt atom | Plus atom

record pattern =
  before_group :: "piece list"
  group_name :: string
  group_body :: "piece list"

record match =
  group0 :: string
  named_group :: "string \<times> string"

fun item_ok :: "class_item \<Rightarrow> char \<Rightarrow> bool" where
  "item_ok (Range lo hi) c = ((of_char lo :: nat) \<le> of_char c \<and> (of_char c :: nat) \<le> of_char hi)"
| "item_ok (Single x) c = (c = x)"

fun atom_ok :: "atom \<Rightarrow> char \<Rightarrow> bool" where
  "atom_ok (Lit x) c = (c = x)"
| "atom_ok AnyChar c = (c \<noteq> CHR 0x0A)"
| "atom_ok (OneOf items) c = list_ex (\<lambda>it. item_ok it c) items"

text \<open>
  \<open>rests ps s\<close> lists what can remain of \<open>s\<close> after the pieces \<open>ps\<close> have matched a
  prefix of it, in the order in which a backtracking matcher tries them: a greedy piece
  offers its longest match first and gives characters back one at a time.
\<close>

fun star_rests :: "atom \<Rightarrow> string \<Rightarrow> string list" where
  "star_rests a [] = [[]]"
| "star_rests a (c # cs) = (if atom_ok a c then star_rests a cs @ [c # cs] else [c # cs])"

fun plus_rests :: "atom \<Rightarrow> string \<Rightarrow> string list" where
  "plus_rests a [] = []"
| "plus_rests a (c # cs) = (if atom_ok a c then star_rests a cs else [])"

fun one_rests :: "atom \<Rightarrow> string \<Rightarrow> string list" where
  "one_rests a [] = []"
| "one_rests a (c # cs) = (if atom_ok a c then [cs] else [])"

fun rests :: "piece list \<Rightarrow> string \<Rightarrow> string list" where
  "rests [] s = [s]"
| "rests (One a # ps) s = concat (map (rests ps) (one_rests a s))"
| "rests (Opt a # ps) s = concat (map (rests ps) (one_rests a s)) @ rests ps s"
| "rests (Plus a # ps) s = concat (map (rests ps) (plus_rests a s))"

text \<open>
  \<open>match_at\<close> is a match anchored at the start of \<open>s\<close>: the first way, in backtracking
  order, to match the pieces before the group and then the group. \<open>group0\<close> is the whole
  matched text and \<open>named_group\<close> the name and the text of the group. \<open>search\<close> is
  \<open>Pattern.search\<close>: the match at the leftmost offset that has one.
\<close>

definition match_at :: "pattern \<Rightarrow> string \<Rightarrow> match option" where
  "match_at pat s =
     (case concat (map (\<lambda>r. map (\<lambda>r'. (r, r')) (rests (group_body pat) r))
                       (rests (before_group pat) s)) of
        [] \<Rightarrow> None
      | (r, r') # _ \<Rightarrow>
          Some \<lparr>group0 = take (length s - length r') s,
                named_group = (group_name pat, take (length r - length r') r)\<rparr>)"

fun search :: "pattern \<Rightarrow> string \<Rightarrow> match option" where
  "search pat [] = match_at pat []"
| "search pat (c # cs) =
     (case match_at pat (c # cs) of Some m \<Rightarrow> Some m | None \<Rightarrow> search pat cs)"

definition group :: "match \<Rightarrow> string \<Rightarrow> string option" where
  "group m n = (if n = fst (named_group m) then Some (snd (named_group m)) else None)"

definition lits :: "string \<Rightarrow> piece list" where
  "lits w = map (\<lambda>c. One (Lit c)) w"

definition GIST_PATTERN :: pattern where
  "GIST_PATTERN =
     \<lparr>before_group =
        lits ''http'' @ [Opt (Lit CHR ''s'')] @ lits ''://gist'' @ [One AnyChar] @
        lits ''github'' @ [One AnyChar] @ lits ''com/'',
      group_name = ''GistId'',
      group_body =
        [Plus (OneOf [Range CHR ''a'' CHR ''z'', Range CHR ''A'' CHR ''Z'',
                      Range CHR ''0'' CHR ''9'', Single CHR ''/'', Single CHR ''_'',
                      Single CHR ''-''])]\<rparr>"

text \<open>The characters of the class \<open>[a-zA-Z0-9/_-]\<close>, for the statements below.\<close>

definition gist_char :: "char \<Rightarrow> bool" where
  "gist_char c \<longleftrightarrow>
     (of_char CHR ''a'' :: nat) \<le> of_char c \<and> (of_char c :: nat) \<le> of_char CHR ''z'' \<or>
     (of_char CHR ''A'' :: nat) \<le> of_char c \<and> (of_char c :: nat) \<le> of_char CHR ''Z'' \<or>
     (of_char CHR ''0'' :: nat) \<le> of_char c \<and> (of_char c :: nat) \<le> of_char CHR ''9'' \<or>
     c = CHR ''/'' \<or> c = CHR ''_'' \<or> c = CHR ''-''"

text \<open>
  Lines 24 to 35: \<open>find_gist_id\<close> returns the group \<open>GistId\<close> of the first match and
  \<open>find_gist_url\<close> the whole match; both return \<open>None\<close> when nothing matches.
\<close>

definition find_gist_id :: "string \<Rightarrow> string option" where
  "find_gist_id text =
     (case search GIST_PATTERN text of
        None \<Rightarrow> None
      | Some m \<Rightarrow> group m ''GistId'')"

definition find_gist_url :: "string \<Rightarrow> string option" where
  "find_gist_url text =
     (case search GIST_PATTERN text of
        None \<Rightarrow> None
      | Some m \<Rightarrow> Some (group0 m))"

text \<open>
  Python's truth value of an \<open>Optional[str]\<close>, as tested by \<open>if gist_id:\<close> (lines 142
  and 150): \<open>None\<close> and the empty string are false. \<open>fmt\<close> is what an f-string prints
  for such a value.
\<close>

definition truthy :: "string option \<Rightarrow> bool" where
  "truthy x = (case x of None \<Rightarrow> False | Some s \<Rightarrow> s \<noteq> [])"

definition fmt :: "string option \<Rightarrow> string" where
  "fmt x = (case x of None \<Rightarrow> ''None'' | Some s \<Rightarrow> s)"

section \<open>Reference shapes used to state the extractor's contract\<close>

text \<open>
  \<open>gist_url_at text i p\<close>: at offset \<open>i\<close> the text reads \<open>http://gist.github.com/\<close> or
  \<open>https://gist.github.com/\<close> followed by \<open>p\<close>, the longest run of class characters
  there, and \<open>p\<close> is not empty.

  \<open>loose_dots_here s\<close>: \<open>s\<close> starts with \<open>gist?github?com/\<close> where one of the two
  places marked \<open>?\<close> holds something else than a dot. \<open>dots_literal text\<close>: no suffix of
  the text starts so.
\<close>

definition gist_url_at :: "string \<Rightarrow> nat \<Rightarrow> string \<Rightarrow> bool" where
  "gist_url_at text i p \<longleftrightarrow>
     p \<noteq> [] \<and>
     (prefix ''http://gist.github.com/'' (drop i text) \<and>
        p = takeWhile gist_char (drop 23 (drop i text)) \<or>
      prefix ''https://gist.github.com/'' (drop i text) \<and>
        p = takeWhile gist_char (drop 24 (drop i text)))"

definition loose_dots_here :: "string \<Rightarrow> bool" where
  "loose_dots_here s \<longleftrightarrow>
     prefix ''gist'' s \<and> prefix ''github'' (drop 5 s) \<and> prefix ''com/'' (drop 12 s) \<and>
     \<not> prefix ''gist.github.com/'' s"

fun dots_literal :: "string \<Rightarrow> bool" where
  "dots_literal [] = True"
| "dots_literal (c # cs) = (\<not> loose_dots_here (c # cs) \<and> dots_literal cs)"

section \<open>Notebook documents\<close>

text \<open>
  A notebook is an \<open>nbformat.NotebookNode\<close>, a dictionary read through attributes. The
  records keep, for each entry the program touches, whether the entry is there:
  \<open>cell.get("cell_type", None)\<close>, \<open>head.get("source", "")\<close>, \<open>"metadata" in cell\<close>,
  \<open>notebook.get("nbformat", 4)\<close> and \<open>notebook.get("cells", [])\<close> all provide for a
  missing entry. The entries the program never reads are kept in \<open>cell_other\<close> and
  \<open>notebook_other\<close>. \<open>'v\<close> is the type of the JSON values the program only passes on
  (outputs, metadata values). An execution count is an entry holding an integer or
  \<open>None\<close>. A metadata dictionary is an association list.
\<close>

record 'v cell =
  cell_type :: "string option"
  source :: "string option"
  outputs :: "'v list option"
  execution_count :: "int option option"
  metadata :: "(string \<times> 'v) list option"
  cell_other :: "(string \<times> 'v) list"

record 'v notebook =
  nbformat :: "int option"
  cells :: "'v cell list option"
  notebook_other :: "(string \<times> 'v) list"

text \<open>
  The notebook library is not part of the program. Of the module
  \<open>nbformat.versions[v]\<close> the program uses the constructor \<open>new_markdown_cell\<close> only; the
  table of modules is a parameter of the functions that use it, with \<open>None\<close> where the
  lookup or the constructor fails.
\<close>

record 'v nbf_module =
  new_markdown_cell :: "string \<Rightarrow> 'v cell"

text \<open>
  Paths are \<open>pathlib.Path\<close> values built from a string; an argument of a command line
  is a string or a path. The errors are the exceptions the program can end with:
  \<open>parser.error\<close> exits with status 2, an attribute missing on a node or on \<open>None\<close>, a
  failure of the library's version table, a notebook file that cannot be read, and
  \<open>subprocess.CalledProcessError\<close> (a \<open>SubprocessError\<close>) with its return code, command,
  output and stderr.
\<close>

datatype path = Path string

datatype arg = S string | P path

datatype error =
    SystemExit int
  | AttributeError string
  | LookupError int
  | ReadError path
  | CalledProcessError int "arg list" "string option" "string option"

text \<open>Lines 38 to 47. \<open>notebook.cells\<close> raises on a node without that entry.\<close>

definition gist_url_from_notebook :: "'v notebook \<Rightarrow> error + string option" where
  "gist_url_from_notebook notebook =
     (case cells notebook of
        None \<Rightarrow> Inl (AttributeError ''cells'')
      | Some [] \<Rightarrow> Inr None
      | Some (head # _) \<Rightarrow>
          if cell_type head \<noteq> Some ''markdown'' then Inr None
          else Inr (find_gist_id (case source head of None \<Rightarrow> [] | Some s \<Rightarrow> s)))"

text \<open>
  Lines 94 to 105. The document is mutated in place and returned; the model returns the
  new document.
\<close>

definition prepend_gist_url ::
  "(int \<Rightarrow> 'v nbf_module option) \<Rightarrow> string \<Rightarrow> 'v notebook \<Rightarrow> error + 'v notebook" where
  "prepend_gist_url versions gist_url notebook =
     (let text = ''Rendered at '' @ gist_url;
          nbf_version = min 4 (case nbformat notebook of None \<Rightarrow> 4 | Some v \<Rightarrow> v)
      in case versions nbf_version of
           None \<Rightarrow> Inl (LookupError nbf_version)
         | Some nbf \<Rightarrow>
             (let new_cell = new_markdown_cell nbf text
              in case cells notebook of
                   None \<Rightarrow> Inl (AttributeError ''cells'')
                 | Some cs \<Rightarrow> Inr (notebook\<lparr>cells := Some (new_cell # cs)\<rparr>)))"

text \<open>
  Lines 108 to 126. \<open>RM_META_FIELDS\<close> is a set; the keys are popped one after the other,
  in an order that does not matter. \<open>strip_cell\<close> is the body of the loop over the cells.
\<close>

definition RM_META_FIELDS :: "string list" where
  "RM_META_FIELDS = [''collapsed'', ''scrolled'']"

definition strip_cell :: "'v cell \<Rightarrow> 'v cell" where
  "strip_cell cell =
     (if cell_type cell \<noteq> Some ''code'' then cell
      else cell\<lparr>outputs := Some [],
                execution_count := Some None,
                metadata := (case metadata cell of
                               None \<Rightarrow> None
                             | Some m \<Rightarrow> Some (fold AList.delete RM_META_FIELDS m))\<rparr>)"

definition strip_outputs :: "'v notebook \<Rightarrow> 'v notebook" where
  "strip_outputs notebook =
     (case cells notebook of
        None \<Rightarrow> notebook
      | Some cs \<Rightarrow> notebook\<lparr>cells := Some (map strip_cell cs)\<rparr>)"

section \<open>The external client and the file system\<close>

text \<open>
  \<open>name\<close> is \<open>Path.name\<close>, the last component of a path: the string is split at
  slashes, and empty components and single dots are dropped, as \<open>pathlib\<close> does when it
  parses a POSIX path. \<open>strip\<close> is \<open>str.strip()\<close>, which removes the characters for
  which \<open>str.isspace\<close> holds from both ends.
\<close>

fun split_slash :: "string \<Rightarrow> string list" where
  "split_slash [] = [[]]"
| "split_slash (c # cs) =
     (if c = CHR ''/'' then [] # split_slash cs
      else (case split_slash cs of [] \<Rightarrow> [[c]] | w # ws \<Rightarrow> (c # w) # ws))"

fun name :: "path \<Rightarrow> string" where
  "name (Path s) =
     (case filter (\<lambda>w. w \<noteq> [] \<and> w \<noteq> ''.'') (split_slash s) of
        [] \<Rightarrow> []
      | w # ws \<Rightarrow> last (w # ws))"

definition is_space :: "char \<Rightarrow> bool" where
  "is_space c \<longleftrightarrow>
     c \<in> {CHR 0x09, CHR 0x0A, CHR 0x0B, CHR 0x0C, CHR 0x0D, CHR 0x1C, CHR 0x1D, CHR 0x1E,
          CHR 0x1F, CHR 0x20, CHR 0x85, CHR 0xA0}"

definition strip :: "string \<Rightarrow> string" where
  "strip s = rev (dropWhile is_space (rev (dropWhile is_space s)))"

text \<open>
  The world outside the program: the notebook that each path holds (what
  \<open>nbformat.read\<close> returns for it; reading and writing are taken as exact inverses), and
  the command lines run so far. The environment gives the result of
  \<open>shutil.which("gh")\<close>, the behaviour of the client (for a command line, in a world: its
  exit status and what it writes to standard output and to standard error) and the
  library's table of versions. The client does not change notebook files. Logging is left
  out of the model.

  \<open>subprocess_run\<close> is \<open>subprocess.run(args, check=True, stdout=subprocess.PIPE,
  text=True)\<close>: standard output is captured, standard error is not, and a non-zero exit
  status raises \<open>CalledProcessError\<close>.
\<close>

record proc_exit =
  exit_status :: int
  out_text :: string
  err_text :: string

record completed_process =
  args :: "arg list"
  returncode :: int
  stdout :: "string option"
  stderr :: "string option"

record 'v world =
  files :: "path \<Rightarrow> 'v notebook option"
  calls :: "arg list list"

record 'v env =
  which_gh :: "string option"
  client :: "'v world \<Rightarrow> arg list \<Rightarrow> proc_exit"
  nbformat_versions :: "int \<Rightarrow> 'v nbf_module option"

definition subprocess_run ::
  "'v env \<Rightarrow> arg list \<Rightarrow> 'v world \<Rightarrow> (error + completed_process) \<times> 'v world" where
  "subprocess_run env argv w =
     (let p = client env w argv;
          w' = w\<lparr>calls := calls w @ [argv]\<rparr>
      in if exit_status p \<noteq> 0
         then (Inl (CalledProcessError (exit_status p) argv (Some (out_text p)) None), w')
         else (Inr \<lparr>args = argv, returncode = exit_status p,
                    stdout = Some (out_text p), stderr = None\<rparr>, w'))"

text \<open>Lines 50 to 71 and 74 to 91.\<close>

definition update_gist_file ::
  "'v env \<Rightarrow> path \<Rightarrow> string \<Rightarrow> path \<Rightarrow> 'v world \<Rightarrow> (error + completed_process) \<times> 'v world" where
  "update_gist_file env gh_exe gist_id file w =
     subprocess_run env
       [P gh_exe, S ''gist'', S ''edit'', S gist_id, S ''-f'', P file, S (name file)] w"

definition create_gist ::
  "'v env \<Rightarrow> path \<Rightarrow> path list \<Rightarrow> 'v world \<Rightarrow> (error + string option) \<times> 'v world" where
  "create_gist env gh_exe fs w =
     (case subprocess_run env ([P gh_exe, S ''gist'', S ''create''] @ map P fs) w of
        (Inl e, w') \<Rightarrow> (Inl e, w')
      | (Inr proc, w') \<Rightarrow>
          (case stdout proc of
             None \<Rightarrow> (Inl (AttributeError ''strip''), w')
           | Some out \<Rightarrow> (Inr (find_gist_id (strip out)), w')))"

definition nbformat_read :: "'v world \<Rightarrow> path \<Rightarrow> error + 'v notebook" where
  "nbformat_read w file = (case files w file of None \<Rightarrow> Inl (ReadError file) | Some nb \<Rightarrow> Inr nb)"

definition nbformat_write :: "'v notebook \<Rightarrow> path \<Rightarrow> 'v world \<Rightarrow> 'v world" where
  "nbformat_write nb file w = w\<lparr>files := (files w)(file \<mapsto> nb)\<rparr>"

section \<open>The per-file driver\<close>

text \<open>
  Lines 129 to 168. \<open>loop_body\<close> is one iteration of the loop over the notebooks and
  \<open>finish\<close> its last lines (163 to 168), which both branches reach; \<open>continue\<close> returns
  from the iteration without reaching them. An exception ends the loop.
  \<open>canonical_url\<close> is the f-string of lines 143 and 157.
\<close>

definition canonical_url :: "string \<Rightarrow> string" where
  "canonical_url gist_id = ''https://gist.github.com/'' @ gist_id"

definition finish :: "bool \<Rightarrow> path \<Rightarrow> 'v notebook \<Rightarrow> 'v world \<Rightarrow> (error + unit) \<times> 'v world" where
  "finish then_clear notebook parsed w =
     (let parsed' = (if then_clear then strip_outputs parsed else parsed)
      in (Inr (), nbformat_write parsed' notebook w))"

definition loop_body ::
  "'v env \<Rightarrow> path \<Rightarrow> bool \<Rightarrow> path \<Rightarrow> 'v world \<Rightarrow> (error + unit) \<times> 'v world" where
  "loop_body env GH then_clear notebook w =
     (case nbformat_read w notebook of
        Inl e \<Rightarrow> (Inl e, w)
      | Inr parsed \<Rightarrow>
     (case gist_url_from_notebook parsed of
        Inl e \<Rightarrow> (Inl e, w)
      | Inr gist_id \<Rightarrow>
          if truthy gist_id then
            (case update_gist_file env GH (canonical_url (fmt gist_id)) notebook w of
               (Inl e, w') \<Rightarrow> (Inl e, w')
             | (Inr _, w') \<Rightarrow> finish then_clear notebook parsed w')
          else
            (case create_gist env GH [notebook] w of
               (Inl e, w') \<Rightarrow> (Inl e, w')
             | (Inr gist_id', w') \<Rightarrow>
                 if \<not> truthy gist_id' then (Inr (), w')
                 else
                   (case prepend_gist_url (nbformat_versions env) (canonical_url (fmt gist_id'))
                           parsed of
                      Inl e \<Rightarrow> (Inl e, w')
                    | Inr parsed' \<Rightarrow> finish then_clear notebook parsed' w'))))"

fun main_loop ::
  "'v env \<Rightarrow> path \<Rightarrow> bool \<Rightarrow> path list \<Rightarrow> 'v world \<Rightarrow> (error + unit) \<times> 'v world" where
  "main_loop env GH then_clear [] w = (Inr (), w)"
| "main_loop env GH then_clear (notebook # notebooks) w =
     (case loop_body env GH then_clear notebook w of
        (Inl e, w') \<Rightarrow> (Inl e, w')
      | (Inr _, w') \<Rightarrow> main_loop env GH then_clear notebooks w')"

definition main ::
  "'v env \<Rightarrow> bool \<Rightarrow> path list \<Rightarrow> 'v world \<Rightarrow> (error + unit) \<times> 'v world" where
  "main env then_clear notebooks w =
     (case which_gh env of
        None \<Rightarrow> (Inl (SystemExit 2), w)
      | Some gh \<Rightarrow> main_loop env (Path gh) then_clear notebooks w)"

section \<open>Auxiliary definitions: what the pieces before the group leave of a text\<close>

text \<open>
  \<open>tail_after t\<close> is what remains of \<open>t\<close> after \<open>://gist.github.com/\<close>, each dot
  standing for any character but the newline, and \<open>head_rest s\<close> what remains of \<open>s\<close>
  after \<open>http\<close> or \<open>https\<close> and that: a list of at most one text. They are shown below
  to be what \<open>rests\<close> computes for the pieces of \<open>GIST_PATTERN\<close> before its group.
\<close>

definition tail_after :: "string \<Rightarrow> string list" where
  "tail_after t =
     (if prefix ''://gist'' t \<and> drop 7 t \<noteq> [] \<and> hd (drop 7 t) \<noteq> CHR 0x0A \<and>
         prefix ''github'' (drop 8 t) \<and> drop 14 t \<noteq> [] \<and> hd (drop 14 t) \<noteq> CHR 0x0A \<and>
         prefix ''com/'' (drop 15 t)
      then [drop 19 t] else [])"

definition head_rest :: "string \<Rightarrow> string list" where
  "head_rest s =
     (if prefix ''http'' s
      then (if prefix ''s'' (drop 4 s) then tail_after (drop 5 s) else tail_after (drop 4 s))
      else [])"

section \<open>Concrete documents, library and client behaviours\<close>

text \<open>
  Two cells, two documents (one whose first cell links a gist, one with a single executed
  code cell), a version table holding a constructor for version 4 only, one notebook file,
  and a client that exits with a given status and given output texts whatever it is asked.
\<close>

definition md_cell :: "string cell" where
  "md_cell = \<lparr>cell_type = Some ''markdown'',
              source = Some ''See https://gist.github.com/abc123 for details'',
              outputs = None, execution_count = None, metadata = Some [], cell_other = []\<rparr>"

definition code_cell :: "string cell" where
  "code_cell = \<lparr>cell_type = Some ''code'', source = Some ''print(1)'',
                outputs = Some [''1''], execution_count = Some (Some 3),
                metadata = Some [(''collapsed'', ''true''), (''tags'', ''demo''),
                                 (''scrolled'', ''false'')],
                cell_other = [(''id'', ''c0'')]\<rparr>"

definition nb_linked :: "string notebook" where
  "nb_linked = \<lparr>nbformat = Some 4, cells = Some [md_cell, code_cell], notebook_other = []\<rparr>"

definition nb_fresh :: "string notebook" where
  "nb_fresh = \<lparr>nbformat = Some 4, cells = Some [code_cell], notebook_other = []\<rparr>"

definition v4 :: "string nbf_module" where
  "v4 = \<lparr>new_markdown_cell = (\<lambda>src. \<lparr>cell_type = Some ''markdown'', source = Some src,
           outputs = None, execution_count = None, metadata = Some [], cell_other = []\<rparr>)\<rparr>"

definition demo_versions :: "int \<Rightarrow> string nbf_module option" where
  "demo_versions v = (if v = 4 then Some v4 else None)"

definition demo_file :: path where
  "demo_file = Path ''notes/demo.ipynb''"

definition demo_world :: "string notebook \<Rightarrow> string world" where
  "demo_world nb = \<lparr>files = [demo_file \<mapsto> nb], calls = []\<rparr>"

definition demo_env :: "int \<Rightarrow> string \<Rightarrow> string \<Rightarrow> string env" where
  "demo_env status out err =
     \<lparr>which_gh = Some ''/usr/bin/gh'',
      client = (\<lambda>w argv. \<lparr>exit_status = status, out_text = out, err_text = err\<rparr>),
      nbformat_versions = demo_versions\<rparr>"

section \<open>The matcher on \<open>GIST_PATTERN\<close>\<close>

lemma atom_ok_gist_class:
  "atom_ok (OneOf [Range CHR ''a'' CHR ''z'', Range CHR ''A'' CHR ''Z'',
                   Range CHR ''0'' CHR ''9'', Single CHR ''/'', Single CHR ''_'',
                   Single CHR ''-'']) = gist_char"
  by (rule ext) (simp add: gist_char_def)

lemma rests_lit:
  "rests (One (Lit x) # ps) s = (if prefix [x] s then rests ps (drop 1 s) else [])"
  by (cases s) auto

lemma rests_any:
  "rests (One AnyChar # ps) s =
     (if s \<noteq> [] \<and> hd s \<noteq> CHR 0x0A then rests ps (drop 1 s) else [])"
  by (cases s) simp_all

lemma rests_opt_lit:
  "rests (Opt (Lit x) # ps) s =
     (if prefix [x] s then rests ps (drop 1 s) else []) @ rests ps s"
  by (cases s) auto

lemma rests_lits:
  "rests (lits w @ ps) s = (if prefix w s then rests ps (drop (length w) s) else [])"
proof (induction w arbitrary: s)
  case Nil
  show ?case by (simp add: lits_def)
next
  case (Cons x w)
  have "rests (lits (x # w) @ ps) s = rests (One (Lit x) # (lits w @ ps)) s"
    by (simp add: lits_def)
  also have "\<dots> = (if prefix [x] s then rests (lits w @ ps) (drop 1 s) else [])"
    by (rule rests_lit)
  also have "\<dots> = (if prefix (x # w) s then rests ps (drop (length (x # w)) s) else [])"
    using Cons.IH [of "drop 1 s"] by (cases s) auto
  finally show ?case .
qed

lemma star_rests_hd:
  "star_rests a s \<noteq> [] \<and> hd (star_rests a s) = dropWhile (atom_ok a) s"
  by (induction s) auto

lemma plus_rests_empty:
  "plus_rests a s = [] \<longleftrightarrow> takeWhile (atom_ok a) s = []"
  using star_rests_hd [of a] by (cases s) auto

lemma plus_rests_hd:
  "takeWhile (atom_ok a) s \<noteq> [] \<Longrightarrow> hd (plus_rests a s) = dropWhile (atom_ok a) s"
  using star_rests_hd [of a] by (cases s) (auto split: if_splits)

lemma concat_rests_Nil: "concat (map (rests []) xs) = xs"
  by (induction xs) simp_all

lemma rests_group:
  "rests [Plus a] r = plus_rests a r"
  by (simp add: concat_rests_Nil)

lemma rests_com: "rests (lits ''com/'') t = (if prefix ''com/'' t then [drop 4 t] else [])"
  using rests_lits [of "''com/''" "[]" t] by (simp add: eval_nat_numeral)

lemma rests_tail:
  "rests (lits ''://gist'' @ One AnyChar # lits ''github'' @ One AnyChar # lits ''com/'') t
   = tail_after t"
  by (simp add: rests_lits rests_any rests_com tail_after_def eval_nat_numeral del: rests.simps)

lemma tail_after_s: "prefix ''s'' t \<Longrightarrow> tail_after t = []"
  by (cases t) (auto simp: tail_after_def)

lemma length_head_rest: "length (head_rest s) \<le> 1"
  by (simp add: head_rest_def tail_after_def)

lemma rests_before:
  "rests (before_group GIST_PATTERN) s = head_rest s"
proof -
  define T where "T = lits ''://gist'' @ One AnyChar # lits ''github'' @ One AnyChar # lits ''com/''"
  have T: "rests T u = tail_after u" for u
    unfolding T_def by (rule rests_tail)
  have "before_group GIST_PATTERN = lits ''http'' @ Opt (Lit CHR ''s'') # T"
    by (simp add: GIST_PATTERN_def T_def)
  then have "rests (before_group GIST_PATTERN) s =
      (if prefix ''http'' s then rests (Opt (Lit CHR ''s'') # T) (drop (length ''http'') s) else [])"
    by (simp only: rests_lits)
  also have "\<dots> =
      (if prefix ''http'' s
       then (if prefix ''s'' (drop 4 s) then tail_after (drop 1 (drop 4 s)) else []) @
            tail_after (drop 4 s)
       else [])"
    by (simp add: rests_opt_lit T eval_nat_numeral del: rests.simps)
  also have "\<dots> = head_rest s"
    by (simp add: head_rest_def tail_after_s eval_nat_numeral)
  finally show ?thesis .
qed

lemma rests_group_body:
  "rests (group_body GIST_PATTERN) r = plus_rests (OneOf [Range CHR ''a'' CHR ''z'', Range CHR ''A'' CHR ''Z'',
                   Range CHR ''0'' CHR ''9'', Single CHR ''/'', Single CHR ''_'',
                   Single CHR ''-'']) r"
  by (simp add: GIST_PATTERN_def concat_rests_Nil)

lemma match_at_GIST:
  "match_at GIST_PATTERN s =
     (case head_rest s of
        [] \<Rightarrow> None
      | r # _ \<Rightarrow>
          if takeWhile gist_char r = [] then None
          else Some \<lparr>group0 = take (length s - length (dropWhile gist_char r)) s,
                     named_group = (''GistId'', takeWhile gist_char r)\<rparr>)"
proof (cases "head_rest s")
  case Nil
  then show ?thesis by (simp add: match_at_def rests_before)
next
  case (Cons r rs)
  with length_head_rest [of s] have rs: "rs = []" by simp
  let ?cl = "OneOf [Range CHR ''a'' CHR ''z'', Range CHR ''A'' CHR ''Z'',
                   Range CHR ''0'' CHR ''9'', Single CHR ''/'', Single CHR ''_'',
                   Single CHR ''-'']"
  show ?thesis
  proof (cases "takeWhile gist_char r = []")
    case True
    then have "plus_rests ?cl r = []"
      by (simp add: plus_rests_empty atom_ok_gist_class del: atom_ok.simps)
    then show ?thesis using Cons rs True
      by (simp add: match_at_def rests_before rests_group_body del: atom_ok.simps)
  next
    case False
    then have ne: "plus_rests ?cl r \<noteq> []" and h: "hd (plus_rests ?cl r) = dropWhile gist_char r"
      using plus_rests_hd [of ?cl r]
      by (simp_all add: plus_rests_empty atom_ok_gist_class del: atom_ok.simps)
    then obtain q qs where q: "plus_rests ?cl r = q # qs" "q = dropWhile gist_char r"
      by (cases "plus_rests ?cl r") auto
    have len: "length r - length (dropWhile gist_char r) = length (takeWhile gist_char r)"
      by (metis add_diff_cancel_right' length_append takeWhile_dropWhile_id)
    have "take (length (takeWhile gist_char r)) r = takeWhile gist_char r"
      by (metis append_eq_conv_conj takeWhile_dropWhile_id)
    moreover have "group_name GIST_PATTERN = ''GistId''"
      by (simp add: GIST_PATTERN_def)
    ultimately show ?thesis using Cons rs False q len
      by (simp add: match_at_def rests_before rests_group_body del: atom_ok.simps)
  qed
qed

lemma search_None:
  "search pat text = None \<longleftrightarrow> (\<forall>i. match_at pat (drop i text) = None)"
proof (induction "text")
  case Nil
  show ?case by simp
next
  case (Cons c cs)
  show ?case
  proof
    assume a: "search pat (c # cs) = None"
    then have h: "match_at pat (c # cs) = None" and t: "search pat cs = None"
      by (auto split: option.splits)
    show "\<forall>i. match_at pat (drop i (c # cs)) = None"
    proof
      fix i show "match_at pat (drop i (c # cs)) = None"
        using h t Cons.IH by (cases i) auto
    qed
  next
    assume a: "\<forall>i. match_at pat (drop i (c # cs)) = None"
    then have "match_at pat (drop 0 (c # cs)) = None" by blast
    moreover have "\<forall>i. match_at pat (drop i cs) = None"
    proof
      fix i show "match_at pat (drop i cs) = None" using a [rule_format, of "Suc i"] by simp
    qed
    ultimately show "search pat (c # cs) = None" using Cons.IH by simp
  qed
qed

lemma search_Some:
  "search pat text = Some m \<longleftrightarrow>
     (\<exists>i. match_at pat (drop i text) = Some m \<and> (\<forall>j<i. match_at pat (drop j text) = None))"
proof (induction "text")
  case Nil
  show ?case by auto
next
  case (Cons c cs)
  show ?case
  proof (cases "match_at pat (c # cs)")
    case (Some m')
    have "(\<exists>i. match_at pat (drop i (c # cs)) = Some m \<and>
            (\<forall>j<i. match_at pat (drop j (c # cs)) = None)) \<longleftrightarrow> m' = m"
    proof
      assume "\<exists>i. match_at pat (drop i (c # cs)) = Some m \<and>
            (\<forall>j<i. match_at pat (drop j (c # cs)) = None)"
      then obtain i where i: "match_at pat (drop i (c # cs)) = Some m"
        "\<forall>j<i. match_at pat (drop j (c # cs)) = None" by blast
      have "i = 0"
      proof (rule ccontr)
        assume "i \<noteq> 0"
        then have "match_at pat (drop 0 (c # cs)) = None" using i(2) by blast
        then show False using Some by simp
      qed
      then show "m' = m" using i(1) Some by simp
    next
      assume "m' = m"
      then have "match_at pat (drop 0 (c # cs)) = Some m \<and>
            (\<forall>j<0. match_at pat (drop j (c # cs)) = None)" using Some by simp
      then show "\<exists>i. match_at pat (drop i (c # cs)) = Some m \<and>
            (\<forall>j<i. match_at pat (drop j (c # cs)) = None)" by blast
    qed
    then show ?thesis using Some by simp
  next
    case None
    have "(\<exists>i. match_at pat (drop i (c # cs)) = Some m \<and>
            (\<forall>j<i. match_at pat (drop j (c # cs)) = None)) \<longleftrightarrow>
          (\<exists>i. match_at pat (drop i cs) = Some m \<and>
            (\<forall>j<i. match_at pat (drop j cs) = None))"
    proof
      assume "\<exists>i. match_at pat (drop i (c # cs)) = Some m \<and>
            (\<forall>j<i. match_at pat (drop j (c # cs)) = None)"
      then obtain i where i: "match_at pat (drop i (c # cs)) = Some m"
        "\<forall>j<i. match_at pat (drop j (c # cs)) = None" by blast
      from i(1) None obtain k where k: "i = Suc k" by (cases i) auto
      have "match_at pat (drop k cs) = Some m" using i(1) k by simp
      moreover have "\<forall>j<k. match_at pat (drop j cs) = None"
      proof (intro allI impI)
        fix j assume "j < k"
        then have "Suc j < i" using k by simp
        then have "match_at pat (drop (Suc j) (c # cs)) = None" using i(2) by blast
        then show "match_at pat (drop j cs) = None" by simp
      qed
      ultimately show "\<exists>i. match_at pat (drop i cs) = Some m \<and>
            (\<forall>j<i. match_at pat (drop j cs) = None)" by blast
    next
      assume "\<exists>i. match_at pat (drop i cs) = Some m \<and>
            (\<forall>j<i. match_at pat (drop j cs) = None)"
      then obtain k where k: "match_at pat (drop k cs) = Some m"
        "\<forall>j<k. match_at pat (drop j cs) = None" by blast
      have "match_at pat (drop (Suc k) (c # cs)) = Some m" using k(1) by simp
      moreover have "\<forall>j<Suc k. match_at pat (drop j (c # cs)) = None"
      proof (intro allI impI)
        fix j assume "j < Suc k"
        then show "match_at pat (drop j (c # cs)) = None"
          using None k(2) by (cases j) auto
      qed
      ultimately show "\<exists>i. match_at pat (drop i (c # cs)) = Some m \<and>
            (\<forall>j<i. match_at pat (drop j (c # cs)) = None)" by blast
    qed
    then show ?thesis using None Cons.IH by simp
  qed
qed

section \<open>The gist-reference extractor\<close>

lemma tail_after_shape:
  "tail_after t = [r] \<longleftrightarrow>
     (\<exists>c d. c \<noteq> CHR 0x0A \<and> d \<noteq> CHR 0x0A \<and>
            t = ''://gist'' @ c # ''github'' @ d # ''com/'' @ r)"
proof
  assume a: "tail_after t = [r]"
  then have p1: "prefix ''://gist'' t" and n1: "drop 7 t \<noteq> []" and h1: "hd (drop 7 t) \<noteq> CHR 0x0A"
    and p2: "prefix ''github'' (drop 8 t)" and n2: "drop 14 t \<noteq> []"
    and h2: "hd (drop 14 t) \<noteq> CHR 0x0A" and p3: "prefix ''com/'' (drop 15 t)"
    and r: "r = drop 19 t"
    by (auto simp: tail_after_def split: if_splits)
  from p1 obtain t1 where t1: "t = ''://gist'' @ t1" by (auto elim: prefixE)
  with n1 h1 obtain c t2 where t2: "t1 = c # t2" "c \<noteq> CHR 0x0A" by (cases t1) auto
  from p2 t1 t2 obtain t3 where t3: "t2 = ''github'' @ t3" by (auto elim: prefixE)
  with n2 h2 t1 t2 obtain d t4 where t4: "t3 = d # t4" "d \<noteq> CHR 0x0A" by (cases t3) auto
  from p3 t1 t2 t3 t4 obtain t5 where t5: "t4 = ''com/'' @ t5" by (auto elim: prefixE)
  have "t = ''://gist'' @ c # ''github'' @ d # ''com/'' @ r"
    using t1 t2 t3 t4 t5 r by simp
  with t2 t4 show "\<exists>c d. c \<noteq> CHR 0x0A \<and> d \<noteq> CHR 0x0A \<and>
            t = ''://gist'' @ c # ''github'' @ d # ''com/'' @ r" by blast
next
  assume "\<exists>c d. c \<noteq> CHR 0x0A \<and> d \<noteq> CHR 0x0A \<and>
            t = ''://gist'' @ c # ''github'' @ d # ''com/'' @ r"
  then show "tail_after t = [r]" by (auto simp: tail_after_def)
qed

lemma tail_after_cases: "tail_after t = [] \<or> tail_after t = [drop 19 t]"
  by (simp add: tail_after_def)

lemma head_rest_shape:
  "head_rest s = [r] \<longleftrightarrow>
     (\<exists>c d. c \<noteq> CHR 0x0A \<and> d \<noteq> CHR 0x0A \<and>
            (s = ''http://gist'' @ c # ''github'' @ d # ''com/'' @ r \<or>
             s = ''https://gist'' @ c # ''github'' @ d # ''com/'' @ r))"
proof
  assume a: "head_rest s = [r]"
  then have p: "prefix ''http'' s" by (auto simp: head_rest_def split: if_splits)
  then obtain u where u: "s = ''http'' @ u" by (auto elim: prefixE)
  show "\<exists>c d. c \<noteq> CHR 0x0A \<and> d \<noteq> CHR 0x0A \<and>
            (s = ''http://gist'' @ c # ''github'' @ d # ''com/'' @ r \<or>
             s = ''https://gist'' @ c # ''github'' @ d # ''com/'' @ r)"
  proof (cases "prefix ''s'' u")
    case True
    then obtain v where v: "u = ''s'' @ v" by (auto elim: prefixE)
    with a u have "tail_after v = [r]" by (simp add: head_rest_def)
    then obtain c d where "c \<noteq> CHR 0x0A" "d \<noteq> CHR 0x0A"
      "v = ''://gist'' @ c # ''github'' @ d # ''com/'' @ r"
      unfolding tail_after_shape by blast
    then show ?thesis using u v by auto
  next
    case False
    with a u have "tail_after u = [r]" by (simp add: head_rest_def)
    then obtain c d where "c \<noteq> CHR 0x0A" "d \<noteq> CHR 0x0A"
      "u = ''://gist'' @ c # ''github'' @ d # ''com/'' @ r"
      unfolding tail_after_shape by blast
    then show ?thesis using u by auto
  qed
next
  assume "\<exists>c d. c \<noteq> CHR 0x0A \<and> d \<noteq> CHR 0x0A \<and>
            (s = ''http://gist'' @ c # ''github'' @ d # ''com/'' @ r \<or>
             s = ''https://gist'' @ c # ''github'' @ d # ''com/'' @ r)"
  then show "head_rest s = [r]"
    by (auto simp: head_rest_def tail_after_def)
qed

lemma head_rest_literal:
  "prefix ''http://gist.github.com/'' s \<Longrightarrow> head_rest s = [drop 23 s]"
  "prefix ''https://gist.github.com/'' s \<Longrightarrow> head_rest s = [drop 24 s]"
  by (auto elim!: prefixE simp: head_rest_def tail_after_def)

lemma dots_literal_drop: "dots_literal s \<Longrightarrow> \<not> loose_dots_here (drop k s)"
proof (induction s arbitrary: k)
  case Nil
  show ?case by (simp add: loose_dots_here_def)
next
  case (Cons c cs)
  then show ?case by (cases k) auto
qed

lemma head_rest_strict:
  assumes "head_rest s = [r]"
    and "\<not> loose_dots_here (drop 7 s)" and "\<not> loose_dots_here (drop 8 s)"
  shows "prefix ''http://gist.github.com/'' s \<and> r = drop 23 s \<or>
         prefix ''https://gist.github.com/'' s \<and> r = drop 24 s"
proof -
  from assms(1) obtain c d where cd: "c \<noteq> CHR 0x0A" "d \<noteq> CHR 0x0A"
    "s = ''http://gist'' @ c # ''github'' @ d # ''com/'' @ r \<or>
     s = ''https://gist'' @ c # ''github'' @ d # ''com/'' @ r"
    unfolding head_rest_shape by blast
  from cd(3) show ?thesis
  proof
    assume s: "s = ''http://gist'' @ c # ''github'' @ d # ''com/'' @ r"
    with assms(2) have "c = CHR ''.'' \<and> d = CHR ''.''"
      by (simp add: loose_dots_here_def)
    with s show ?thesis by simp
  next
    assume s: "s = ''https://gist'' @ c # ''github'' @ d # ''com/'' @ r"
    with assms(3) have "c = CHR ''.'' \<and> d = CHR ''.''"
      by (simp add: loose_dots_here_def)
    with s show ?thesis by simp
  qed
qed

lemma match_at_of_url:
  assumes "gist_url_at text i p"
  shows "\<exists>m. match_at GIST_PATTERN (drop i text) = Some m \<and> group m ''GistId'' = Some p"
  using assms head_rest_literal [of "drop i text"]
  by (auto simp: gist_url_at_def match_at_GIST group_def)

lemma match_at_group:
  assumes "match_at GIST_PATTERN s = Some m"
  shows "group m ''GistId'' = Some (snd (named_group m)) \<and> snd (named_group m) \<noteq> [] \<and>
         (\<exists>r. snd (named_group m) = takeWhile gist_char r)"
  using assms by (auto simp: match_at_GIST group_def split: list.splits if_splits)

lemma url_of_match_at:
  assumes "dots_literal text" and "match_at GIST_PATTERN (drop i text) = Some m"
  shows "gist_url_at text i (snd (named_group m))"
proof -
  from assms(2) obtain r where r: "head_rest (drop i text) = [r]"
    and p: "takeWhile gist_char r \<noteq> []" "snd (named_group m) = takeWhile gist_char r"
    using length_head_rest [of "drop i text"]
    by (cases "head_rest (drop i text)") (auto simp: match_at_GIST split: if_splits)
  have "\<not> loose_dots_here (drop 7 (drop i text))" "\<not> loose_dots_here (drop 8 (drop i text))"
    using dots_literal_drop [OF assms(1)] by simp_all
  from head_rest_strict [OF r this] p show ?thesis
    by (auto simp: gist_url_at_def)
qed

text \<open>
  Claim C1, as amended. The pattern accepts both schemes, \<open>http\<close> and \<open>https\<close>, and
  fixes the host to \<open>gist.github.com\<close>. For every input text in which every place reading
  \<open>gist?github?com/\<close> is spelt with the two dots, the extractor returns \<open>p\<close> exactly when
  \<open>p\<close> is the longest run of characters from \<open>[A-Za-z0-9/_-]\<close>, non-empty, that follows
  the leftmost occurrence of \<open>http://gist.github.com/\<close> or \<open>https://gist.github.com/\<close>
  having such a run; and it returns absent exactly when the text has no such occurrence.
\<close>

theorem find_gist_id_first_url:
  assumes "dots_literal text"
  shows "(find_gist_id text = Some p \<longleftrightarrow>
            (\<exists>i. gist_url_at text i p \<and> (\<forall>j<i. \<forall>q. \<not> gist_url_at text j q))) \<and>
         (find_gist_id text = None \<longleftrightarrow> (\<forall>i q. \<not> gist_url_at text i q))"
proof (intro conjI iffI)
  assume "find_gist_id text = Some p"
  then obtain m where m: "search GIST_PATTERN text = Some m" "group m ''GistId'' = Some p"
    by (auto simp: find_gist_id_def split: option.splits)
  then obtain i where i: "match_at GIST_PATTERN (drop i text) = Some m"
    "\<forall>j<i. match_at GIST_PATTERN (drop j text) = None"
    unfolding search_Some by blast
  have "gist_url_at text i p"
    using url_of_match_at [OF assms i(1)] match_at_group [OF i(1)] m(2) by simp
  moreover have "\<forall>j<i. \<forall>q. \<not> gist_url_at text j q"
    using i(2) match_at_of_url by fastforce
  ultimately show "\<exists>i. gist_url_at text i p \<and> (\<forall>j<i. \<forall>q. \<not> gist_url_at text j q)"
    by blast
next
  assume "\<exists>i. gist_url_at text i p \<and> (\<forall>j<i. \<forall>q. \<not> gist_url_at text j q)"
  then obtain i where i: "gist_url_at text i p" "\<forall>j<i. \<forall>q. \<not> gist_url_at text j q"
    by blast
  from match_at_of_url [OF i(1)] obtain m where
    m: "match_at GIST_PATTERN (drop i text) = Some m" "group m ''GistId'' = Some p" by blast
  have "\<forall>j<i. match_at GIST_PATTERN (drop j text) = None"
  proof (intro allI impI)
    fix j assume j: "j < i"
    show "match_at GIST_PATTERN (drop j text) = None"
    proof (cases "match_at GIST_PATTERN (drop j text)")
      case None then show ?thesis .
    next
      case (Some m')
      from url_of_match_at [OF assms Some] i(2) j show ?thesis by blast
    qed
  qed
  with m(1) have "search GIST_PATTERN text = Some m"
    unfolding search_Some by blast
  with m(2) show "find_gist_id text = Some p" by (simp add: find_gist_id_def)
next
  assume a: "find_gist_id text = None"
  have "search GIST_PATTERN text = None"
  proof (cases "search GIST_PATTERN text")
    case None then show ?thesis .
  next
    case (Some m)
    then obtain i where "match_at GIST_PATTERN (drop i text) = Some m"
      unfolding search_Some by blast
    from match_at_group [OF this] a Some show ?thesis by (simp add: find_gist_id_def)
  qed
  then have "\<forall>i. match_at GIST_PATTERN (drop i text) = None"
    unfolding search_None .
  then show "\<forall>i q. \<not> gist_url_at text i q"
    using match_at_of_url by fastforce
next
  assume a: "\<forall>i q. \<not> gist_url_at text i q"
  have "\<forall>i. match_at GIST_PATTERN (drop i text) = None"
  proof
    fix i show "match_at GIST_PATTERN (drop i text) = None"
    proof (cases "match_at GIST_PATTERN (drop i text)")
      case None then show ?thesis .
    next
      case (Some m)
      from url_of_match_at [OF assms Some] a show ?thesis by blast
    qed
  qed
  then have "search GIST_PATTERN text = None" unfolding search_None .
  then show "find_gist_id text = None" by (simp add: find_gist_id_def)
qed

lemma find_gist_id_Some:
  assumes "find_gist_id s = Some p"
  shows "p \<noteq> [] \<and> list_all gist_char p"
proof -
  from assms obtain m where m: "search GIST_PATTERN s = Some m" "group m ''GistId'' = Some p"
    by (auto simp: find_gist_id_def split: option.splits)
  then obtain i where "match_at GIST_PATTERN (drop i s) = Some m"
    unfolding search_Some by blast
  from match_at_group [OF this] m(2) obtain r where "p \<noteq> []" "p = takeWhile gist_char r"
    by auto
  then show ?thesis
    by (auto simp: list_all_iff dest: set_takeWhileD)
qed

text \<open>
  Claim C10. For every input text the extractor's result is either absent or a non-empty
  string over \<open>[A-Za-z0-9/_-]\<close>; hence the driver's truthiness test \<open>if gist_id\<close> holds
  exactly when a reference is present.
\<close>

theorem find_gist_id_nonempty:
  "(case find_gist_id text of None \<Rightarrow> True | Some p \<Rightarrow> p \<noteq> [] \<and> list_all gist_char p) \<and>
   (truthy (find_gist_id text) \<longleftrightarrow> find_gist_id text \<noteq> None)"
  using find_gist_id_Some [of "text"]
  by (cases "find_gist_id text") (auto simp: truthy_def)

section \<open>The notebook mutator: stripping outputs\<close>

lemma fold_delete_RM_META_FIELDS:
  "fold AList.delete RM_META_FIELDS m =
     filter (\<lambda>(k, v). k \<noteq> ''collapsed'' \<and> k \<noteq> ''scrolled'') m"
  by (induction m) (auto simp: RM_META_FIELDS_def AList.delete_eq)

lemma strip_cell_idem: "strip_cell (strip_cell c) = strip_cell c"
  by (cases "metadata c")
     (simp_all add: strip_cell_def fold_delete_RM_META_FIELDS)

text \<open>
  Claim C2. \<open>strip_outputs\<close> is idempotent: applying it twice yields the same document as
  applying it once.
\<close>

theorem strip_outputs_idempotent:
  "strip_outputs (strip_outputs notebook) = strip_outputs notebook"
  by (cases "cells notebook") (simp_all add: strip_outputs_def strip_cell_idem)

text \<open>
  Claim C8. \<open>strip_outputs\<close> keeps the number and order of cells and everything of the
  document outside the cells. In every cell of kind \<open>code\<close> the outputs become the empty
  sequence, the execution counter becomes none, the metadata (when the cell has one) loses
  exactly the entries keyed \<open>collapsed\<close> and \<open>scrolled\<close> and keeps every other entry in
  place, and kind, source and the remaining fields are unchanged. Every cell of another
  kind is unchanged.
\<close>

theorem strip_outputs_effect:
  "nbformat (strip_outputs nb) = nbformat nb \<and>
   notebook_other (strip_outputs nb) = notebook_other nb \<and>
   (case cells nb of
      None \<Rightarrow> cells (strip_outputs nb) = None
    | Some cs \<Rightarrow>
        (\<exists>cs'. cells (strip_outputs nb) = Some cs' \<and> length cs' = length cs \<and>
           (\<forall>i<length cs.
              if cell_type (cs ! i) = Some ''code''
              then outputs (cs' ! i) = Some [] \<and>
                   execution_count (cs' ! i) = Some None \<and>
                   metadata (cs' ! i) =
                     map_option (filter (\<lambda>(k, v). k \<noteq> ''collapsed'' \<and> k \<noteq> ''scrolled''))
                       (metadata (cs ! i)) \<and>
                   cell_type (cs' ! i) = cell_type (cs ! i) \<and>
                   source (cs' ! i) = source (cs ! i) \<and>
                   cell_other (cs' ! i) = cell_other (cs ! i)
              else cs' ! i = cs ! i)))"
  by (cases "cells nb")
     (auto simp: strip_outputs_def strip_cell_def fold_delete_RM_META_FIELDS
           split: option.splits)

section \<open>The annotation reader and the announcement\<close>

text \<open>
  Claim C5. For every notebook document that carries a cell sequence, the annotation
  reader returns absent if the sequence is empty or if the first cell's kind is not
  \<open>markdown\<close>; otherwise it returns exactly what the extractor returns on the first
  cell's source text (the empty text when the cell has no source entry).
\<close>

theorem gist_url_from_notebook_spec:
  assumes "cells notebook = Some cs"
  shows "(cs = [] \<longrightarrow> gist_url_from_notebook notebook = Inr None) \<and>
         (cs \<noteq> [] \<and> cell_type (hd cs) \<noteq> Some ''markdown'' \<longrightarrow>
            gist_url_from_notebook notebook = Inr None) \<and>
         (cs \<noteq> [] \<and> cell_type (hd cs) = Some ''markdown'' \<longrightarrow>
            gist_url_from_notebook notebook =
              Inr (find_gist_id (case source (hd cs) of None \<Rightarrow> [] | Some s \<Rightarrow> s)))"
  using assms by (cases cs) (simp_all add: gist_url_from_notebook_def)

text \<open>
  Claim C6. \<open>versions\<close> stands for the table \<open>nbformat.versions\<close> of the notebook library,
  which is not part of this program. For every document with a cell sequence and every
  URL, when the library has a markdown-cell constructor for the document's declared
  format version capped at 4 (version 4 when none is declared), and that constructor
  returns a markdown cell with the source it is given, \<open>prepend_gist_url\<close> returns the
  document with one more cell: the new cell is at index 0, is the constructor's result on
  \<open>Rendered at <url>\<close>, is of markdown kind with that source, and every earlier cell is
  kept, in order, one index later. Nothing else of the document changes.
\<close>

theorem prepend_gist_url_spec:
  assumes "cells notebook = Some cs"
    and "versions (min 4 (case nbformat notebook of None \<Rightarrow> 4 | Some v \<Rightarrow> v)) = Some nbf"
    and "cell_type (new_markdown_cell nbf (''Rendered at '' @ gist_url)) = Some ''markdown''"
    and "source (new_markdown_cell nbf (''Rendered at '' @ gist_url)) = Some (''Rendered at '' @ gist_url)"
  shows "\<exists>nb' cs'. prepend_gist_url versions gist_url notebook = Inr nb' \<and>
           nb' = notebook\<lparr>cells := Some cs'\<rparr> \<and>
           cs' = new_markdown_cell nbf (''Rendered at '' @ gist_url) # cs \<and>
           length cs' = length cs + 1 \<and>
           cell_type (cs' ! 0) = Some ''markdown'' \<and>
           source (cs' ! 0) = Some (''Rendered at '' @ gist_url) \<and>
           (\<forall>i<length cs. cs' ! (i + 1) = cs ! i)"
  using assms by (simp add: prepend_gist_url_def Let_def)

lemma no_http_before:
  assumes "j < length u" and "CHR ''h'' \<notin> set u"
  shows "head_rest (drop j (u @ v)) = []"
proof -
  from assms(1) obtain c cs where d: "drop j u = c # cs"
    by (cases "drop j u") auto
  then have "c \<in> set u" by (metis in_set_dropD list.set_intros(1))
  with assms(2) have "c \<noteq> CHR ''h''" by auto
  with d assms(1) show ?thesis by (simp add: head_rest_def)
qed

lemma find_gist_id_rendered:
  assumes "gid \<noteq> []" and "list_all gist_char gid"
  shows "find_gist_id (''Rendered at '' @ canonical_url gid) = Some gid"
proof -
  let ?t = "''Rendered at '' @ canonical_url gid"
  have tw: "takeWhile gist_char gid = gid"
    using assms(2) by (simp add: list_all_iff)
  have "gist_url_at ?t 12 gid"
    using assms(1) by (simp add: gist_url_at_def canonical_url_def tw)
  from match_at_of_url [OF this] obtain m where
    m: "match_at GIST_PATTERN (drop 12 ?t) = Some m" "group m ''GistId'' = Some gid" by blast
  have "\<forall>j<12. match_at GIST_PATTERN (drop j ?t) = None"
  proof (intro allI impI)
    fix j :: nat assume "j < 12"
    then have "head_rest (drop j (''Rendered at '' @ canonical_url gid)) = []"
      by (intro no_http_before) simp_all
    then show "match_at GIST_PATTERN (drop j ?t) = None"
      by (simp add: match_at_GIST)
  qed
  with m(1) have "search GIST_PATTERN ?t = Some m"
    unfolding search_Some by blast
  with m(2) show ?thesis by (simp add: find_gist_id_def)
qed

text \<open>
  Claim C7. For every document with a cell sequence and every identifier of one or more
  characters from \<open>[A-Za-z0-9/_-]\<close>, under the same assumptions on the library as in C6,
  the annotation reader applied to the result of \<open>prepend_gist_url\<close> with the canonical
  URL \<open>https://gist.github.com/<identifier>\<close> returns that identifier, and the driver's
  test on it succeeds: the next run takes the update branch.
\<close>

theorem annotate_then_read:
  assumes "cells notebook = Some cs"
    and "versions (min 4 (case nbformat notebook of None \<Rightarrow> 4 | Some v \<Rightarrow> v)) = Some nbf"
    and "cell_type (new_markdown_cell nbf (''Rendered at '' @ canonical_url gid)) = Some ''markdown''"
    and "source (new_markdown_cell nbf (''Rendered at '' @ canonical_url gid)) =
           Some (''Rendered at '' @ canonical_url gid)"
    and "gid \<noteq> []" and "list_all gist_char gid"
  shows "\<exists>nb'. prepend_gist_url versions (canonical_url gid) notebook = Inr nb' \<and>
           gist_url_from_notebook nb' = Inr (Some gid) \<and>
           truthy (Some gid)"
  using assms find_gist_id_rendered [OF assms(5,6)]
  by (simp add: prepend_gist_url_def Let_def gist_url_from_notebook_def truthy_def)

section \<open>The per-file driver and the client invoker\<close>

text \<open>
  Claim C3. For every notebook file whose document has a markdown first cell in which the
  extractor finds a reference, the driver's loop body runs the client once, with the
  arguments \<open>gist edit https://gist.github.com/<reference> -f <file> <file's base name>\<close>.
  When the client exits with status 0 the document written back is the document read
  (stripped of outputs only when the clear option is set): no announcement is inserted.
  When the client fails, the error is raised and nothing is written.
\<close>

theorem update_branch:
  assumes "files w notebook = Some parsed"
    and "cells parsed = Some (head # rest)"
    and "cell_type head = Some ''markdown''"
    and "find_gist_id (case source head of None \<Rightarrow> [] | Some s \<Rightarrow> s) = Some ref"
  shows "let argv = [P GH, S ''gist'', S ''edit'', S (''https://gist.github.com/'' @ ref),
                     S ''-f'', P notebook, S (name notebook)];
             p = client env w argv
         in loop_body env GH then_clear notebook w =
            (if exit_status p \<noteq> 0
             then (Inl (CalledProcessError (exit_status p) argv (Some (out_text p)) None),
                   w\<lparr>calls := calls w @ [argv]\<rparr>)
             else (Inr (),
                   w\<lparr>calls := calls w @ [argv],
                     files := (files w)(notebook \<mapsto>
                        (if then_clear then strip_outputs parsed else parsed))\<rparr>))"
proof -
  have nonempty: "ref \<noteq> []"
    using find_gist_id_Some [OF assms(4)] by simp
  show ?thesis
    using assms nonempty
    by (simp add: loop_body_def nbformat_read_def gist_url_from_notebook_def truthy_def
        update_gist_file_def subprocess_run_def canonical_url_def finish_def fmt_def
        nbformat_write_def Let_def)
qed

text \<open>
  Claim C4. For every notebook file whose document has no gist reference, when the
  client's create operation exits with status 0 and the extractor finds no reference in
  its trimmed output, the loop body returns without writing: the files are as before
  whatever the clear option is, the only effect is the recorded client call, and the run
  goes on with the remaining files.
\<close>

theorem create_without_reference:
  assumes "files w notebook = Some parsed"
    and "gist_url_from_notebook parsed = Inr None"
    and "exit_status (client env w [P GH, S ''gist'', S ''create'', P notebook]) = 0"
    and "find_gist_id (strip (out_text (client env w [P GH, S ''gist'', S ''create'', P notebook])))
           = None"
  shows "let argv = [P GH, S ''gist'', S ''create'', P notebook];
             w' = w\<lparr>calls := calls w @ [argv]\<rparr>
         in loop_body env GH then_clear notebook w = (Inr (), w') \<and>
            files w' = files w \<and>
            main_loop env GH then_clear (notebook # notebooks) w =
              main_loop env GH then_clear notebooks w'"
  using assms
  by (simp add: loop_body_def nbformat_read_def truthy_def create_gist_def
      subprocess_run_def Let_def)

text \<open>
  Claim C9, as amended. For every invocation of the client by \<open>update_gist_file\<close> or
  \<open>create_gist\<close>, when the client exits with a non-zero status the operation fails with
  \<open>CalledProcessError\<close> (a \<open>SubprocessError\<close>) carrying the exit status, the command
  line and the captured standard output; the standard-error stream is not captured, so
  the error carries none. The files are not touched by the failed operation.
\<close>

theorem client_failure:
  "(let argv = [P gh_exe, S ''gist'', S ''edit'', S gist_id, S ''-f'', P file, S (name file)];
        p = client env w argv
    in exit_status p \<noteq> 0 \<longrightarrow>
       update_gist_file env gh_exe gist_id file w =
         (Inl (CalledProcessError (exit_status p) argv (Some (out_text p)) None),
          w\<lparr>calls := calls w @ [argv]\<rparr>)) \<and>
   (let argv = [P gh_exe, S ''gist'', S ''create''] @ map P fs;
        p = client env w argv
    in exit_status p \<noteq> 0 \<longrightarrow>
       create_gist env gh_exe fs w =
         (Inl (CalledProcessError (exit_status p) argv (Some (out_text p)) None),
          w\<lparr>calls := calls w @ [argv]\<rparr>)) \<and>
   files (snd (update_gist_file env gh_exe gist_id file w)) = files w \<and>
   files (snd (create_gist env gh_exe fs w)) = files w"
  by (auto simp: update_gist_file_def create_gist_def subprocess_run_def Let_def
           split: option.splits)

section \<open>Instances on concrete inputs\<close>

lemma no_h_no_url: "CHR ''h'' \<notin> set s \<Longrightarrow> \<not> gist_url_at s i q"
proof
  assume h: "CHR ''h'' \<notin> set s" and "gist_url_at s i q"
  then obtain r where "drop i s = CHR ''h'' # r"
    by (auto simp: gist_url_at_def elim!: prefixE)
  then have "CHR ''h'' \<in> set (drop i s)" by simp
  then show False using h by (auto dest: in_set_dropD)
qed

text \<open>
  The amended C1 at the text of the specification's own example and at a text with no link.
\<close>

theorem find_gist_id_first_url_witness:
  "dots_literal ''See https://gist.github.com/abc123 for details'' \<and>
   find_gist_id ''See https://gist.github.com/abc123 for details'' = Some ''abc123'' \<and>
   dots_literal ''no link yet'' \<and> find_gist_id ''no link yet'' = None"
proof -
  let ?t = "''See https://gist.github.com/abc123 for details''"
  have d: "dots_literal ?t" by (simp add: loose_dots_here_def)
  have u: "gist_url_at ?t 4 ''abc123''" by (simp add: gist_url_at_def gist_char_def)
  have n: "\<forall>j<4. \<forall>q. \<not> gist_url_at ?t j q"
  proof (intro allI impI)
    fix j :: nat and q assume "j < 4"
    then consider "j = 0" | "j = 1" | "j = 2" | "j = 3" by linarith
    then show "\<not> gist_url_at ?t j q"
      by cases (simp_all add: gist_url_at_def)
  qed
  have a: "find_gist_id ?t = Some ''abc123''"
    using find_gist_id_first_url [OF d, of "''abc123''"] u n by blast
  have d': "dots_literal ''no link yet''" by (simp add: loose_dots_here_def)
  have "\<forall>i q. \<not> gist_url_at ''no link yet'' i q"
    by (intro allI no_h_no_url) simp
  then have b: "find_gist_id ''no link yet'' = None"
    using find_gist_id_first_url [OF d', of "[]"] by blast
  from d a d' b show ?thesis by blast
qed

text \<open>
  Claim C1 as stated fails: a text that does not even contain \<open>https://\<close> yields a
  reference (the scheme \<open>http\<close> is accepted), and a text of the shape
  \<open>https://gist.<host>/<path>\<close> with another host yields none.
\<close>

theorem find_gist_id_counterexample:
  "find_gist_id ''http://gist.github.com/abc'' = Some ''abc'' \<and>
   \<not> sublist ''https://'' ''http://gist.github.com/abc'' \<and>
   find_gist_id ''https://gist.example.org/abc'' = None"
proof -
  have 1: "find_gist_id ''http://gist.github.com/abc'' = Some ''abc''"
    by (simp add: find_gist_id_def GIST_PATTERN_def match_at_def lits_def group_def)
  have 2: "find_gist_id ''https://gist.example.org/abc'' = None"
    by (simp add: find_gist_id_def GIST_PATTERN_def match_at_def lits_def group_def)
  have 3: "\<not> sublist ''https://'' ''http://gist.github.com/abc''"
    by (simp add: sublist_Cons_right)
  from 1 2 3 show ?thesis by blast
qed

text \<open>
  C10 at the announcement text the tool itself writes.
\<close>

theorem find_gist_id_nonempty_witness:
  "find_gist_id ''Rendered at https://gist.github.com/xyz789'' = Some ''xyz789'' \<and>
   ''xyz789'' \<noteq> [] \<and> list_all gist_char ''xyz789'' \<and>
   truthy (find_gist_id ''Rendered at https://gist.github.com/xyz789'')"
proof -
  have "find_gist_id ''Rendered at https://gist.github.com/xyz789'' = Some ''xyz789''"
    by (simp add: find_gist_id_def GIST_PATTERN_def match_at_def lits_def group_def)
  then show ?thesis
    using find_gist_id_nonempty [of "''Rendered at https://gist.github.com/xyz789''"]
    by simp
qed

text \<open>
  C2 at a document that stripping does change.
\<close>

theorem strip_outputs_idempotent_witness:
  "strip_outputs (strip_outputs nb_linked) = strip_outputs nb_linked \<and>
   strip_outputs nb_linked \<noteq> nb_linked"
  using strip_outputs_idempotent [of nb_linked]
  by (simp add: nb_linked_def strip_outputs_def strip_cell_def md_cell_def code_cell_def)

text \<open>
  C8 at a document with one markdown cell and one executed code cell.
\<close>

theorem strip_outputs_effect_witness:
  "cells (strip_outputs nb_linked) =
     Some [md_cell,
           code_cell\<lparr>outputs := Some [], execution_count := Some None,
                     metadata := Some [(''tags'', ''demo'')]\<rparr>]"
proof -
  have c: "cells nb_linked = Some [md_cell, code_cell]" by (simp add: nb_linked_def)
  from strip_outputs_effect [of nb_linked] c obtain cs' where
    cs': "cells (strip_outputs nb_linked) = Some cs'" "length cs' = 2"
    and each: "\<forall>i<2. if cell_type ([md_cell, code_cell] ! i) = Some ''code''
              then outputs (cs' ! i) = Some [] \<and>
                   execution_count (cs' ! i) = Some None \<and>
                   metadata (cs' ! i) =
                     map_option (filter (\<lambda>(k, v). k \<noteq> ''collapsed'' \<and> k \<noteq> ''scrolled''))
                       (metadata ([md_cell, code_cell] ! i)) \<and>
                   cell_type (cs' ! i) = cell_type ([md_cell, code_cell] ! i) \<and>
                   source (cs' ! i) = source ([md_cell, code_cell] ! i) \<and>
                   cell_other (cs' ! i) = cell_other ([md_cell, code_cell] ! i)
              else cs' ! i = [md_cell, code_cell] ! i"
    by auto
  from cs'(2) obtain a b where ab: "cs' = [a, b]"
    by (cases cs'; cases "tl cs'"; cases "tl (tl cs')") auto
  from each [rule_format, of 0] ab have a: "a = md_cell" by (simp add: md_cell_def)
  from each [rule_format, of 1] ab have b:
    "b = code_cell\<lparr>outputs := Some [], execution_count := Some None,
                     metadata := Some [(''tags'', ''demo'')]\<rparr>"
    by (cases b) (simp add: code_cell_def)
  from cs'(1) ab a b show ?thesis by simp
qed

lemma find_gist_id_examples:
  "find_gist_id ''See https://gist.github.com/abc123 for details'' = Some ''abc123''"
  "find_gist_id ''created'' = None"
  by (simp_all add: find_gist_id_def GIST_PATTERN_def match_at_def lits_def group_def)

text \<open>
  C5 at a document whose first cell links a gist, at one whose first cell is code, and at
  one with no cells.
\<close>

theorem gist_url_from_notebook_spec_witness:
  "cells nb_linked = Some [md_cell, code_cell] \<and>
   gist_url_from_notebook nb_linked = Inr (Some ''abc123'') \<and>
   cells nb_fresh = Some [code_cell] \<and>
   gist_url_from_notebook nb_fresh = Inr None \<and>
   gist_url_from_notebook (nb_fresh\<lparr>cells := Some []\<rparr>) = Inr None"
proof -
  have a: "cells nb_linked = Some [md_cell, code_cell]" by (simp add: nb_linked_def)
  have b: "cells nb_fresh = Some [code_cell]" by (simp add: nb_fresh_def)
  have c: "cells (nb_fresh\<lparr>cells := Some []\<rparr>) = Some []" by simp
  from gist_url_from_notebook_spec [OF a] gist_url_from_notebook_spec [OF b]
    gist_url_from_notebook_spec [OF c] a b
  show ?thesis
    by (simp add: md_cell_def code_cell_def find_gist_id_examples)
qed

text \<open>
  C6 at a version-4 document with one code cell.
\<close>

theorem prepend_gist_url_spec_witness:
  "cells nb_fresh = Some [code_cell] \<and>
   demo_versions (min 4 (case nbformat nb_fresh of None \<Rightarrow> 4 | Some v \<Rightarrow> v)) = Some v4 \<and>
   prepend_gist_url demo_versions ''https://gist.github.com/xyz789'' nb_fresh =
     Inr (nb_fresh\<lparr>cells := Some
       [\<lparr>cell_type = Some ''markdown'',
         source = Some ''Rendered at https://gist.github.com/xyz789'',
         outputs = None, execution_count = None, metadata = Some [], cell_other = []\<rparr>,
        code_cell]\<rparr>)"
proof -
  have a: "cells nb_fresh = Some [code_cell]" by (simp add: nb_fresh_def)
  have b: "demo_versions (min 4 (case nbformat nb_fresh of None \<Rightarrow> 4 | Some v \<Rightarrow> v)) = Some v4"
    by (simp add: nb_fresh_def demo_versions_def)
  have c: "cell_type (new_markdown_cell v4 (''Rendered at '' @ ''https://gist.github.com/xyz789''))
      = Some ''markdown''"
    by (simp add: v4_def)
  have d: "source (new_markdown_cell v4 (''Rendered at '' @ ''https://gist.github.com/xyz789''))
      = Some (''Rendered at '' @ ''https://gist.github.com/xyz789'')"
    by (simp add: v4_def)
  from prepend_gist_url_spec [where versions = demo_versions, OF a b c d] a b show ?thesis
    by (auto simp: v4_def)
qed

text \<open>
  C7 at a version-4 document and the identifier \<open>xyz789\<close>.
\<close>

theorem annotate_then_read_witness:
  "cells nb_fresh = Some [code_cell] \<and>
   list_all gist_char ''xyz789'' \<and>
   (\<exists>nb'. prepend_gist_url demo_versions (canonical_url ''xyz789'') nb_fresh = Inr nb' \<and>
          gist_url_from_notebook nb' = Inr (Some ''xyz789''))"
proof -
  have a: "cells nb_fresh = Some [code_cell]" by (simp add: nb_fresh_def)
  have b: "demo_versions (min 4 (case nbformat nb_fresh of None \<Rightarrow> 4 | Some v \<Rightarrow> v)) = Some v4"
    by (simp add: nb_fresh_def demo_versions_def)
  have c: "cell_type (new_markdown_cell v4 (''Rendered at '' @ canonical_url ''xyz789''))
      = Some ''markdown''"
    by (simp add: v4_def)
  have d: "source (new_markdown_cell v4 (''Rendered at '' @ canonical_url ''xyz789''))
      = Some (''Rendered at '' @ canonical_url ''xyz789'')"
    by (simp add: v4_def)
  have e: "''xyz789'' \<noteq> []" by simp
  have f: "list_all gist_char ''xyz789''" by (simp add: gist_char_def)
  from annotate_then_read [where versions = demo_versions, OF a b c d e f] a f show ?thesis by blast
qed

text \<open>
  C3 at a file holding a linked document, with the clear option unset: the file's content
  after the run is the content before it.
\<close>

theorem update_branch_witness:
  "files (demo_world nb_linked) demo_file = Some nb_linked \<and>
   loop_body (demo_env 0 [] []) (Path ''/usr/bin/gh'') False demo_file (demo_world nb_linked) =
     (Inr (),
      \<lparr>files = [demo_file \<mapsto> nb_linked],
       calls = [[P (Path ''/usr/bin/gh''), S ''gist'', S ''edit'',
                 S ''https://gist.github.com/abc123'', S ''-f'', P demo_file,
                 S ''demo.ipynb'']]\<rparr>)"
proof -
  have a: "files (demo_world nb_linked) demo_file = Some nb_linked"
    by (simp add: demo_world_def)
  have b: "cells nb_linked = Some (md_cell # [code_cell])" by (simp add: nb_linked_def)
  have c: "cell_type md_cell = Some ''markdown''" by (simp add: md_cell_def)
  have d: "find_gist_id (case source md_cell of None \<Rightarrow> [] | Some s \<Rightarrow> s) = Some ''abc123''"
    by (simp add: md_cell_def find_gist_id_examples)
  from update_branch [OF a b c d, of "Path ''/usr/bin/gh''" "demo_env 0 [] []" False] a
  show ?thesis
    by (simp add: demo_env_def demo_world_def demo_file_def Let_def)
qed

text \<open>
  C4 at a file holding an unlinked document, with the clear option set and a client that
  prints no link.
\<close>

theorem create_without_reference_witness:
  "files (demo_world nb_fresh) demo_file = Some nb_fresh \<and>
   gist_url_from_notebook nb_fresh = Inr None \<and>
   loop_body (demo_env 0 ''created'' []) (Path ''/usr/bin/gh'') True demo_file
       (demo_world nb_fresh) =
     (Inr (),
      \<lparr>files = [demo_file \<mapsto> nb_fresh],
       calls = [[P (Path ''/usr/bin/gh''), S ''gist'', S ''create'', P demo_file]]\<rparr>)"
proof -
  let ?env = "demo_env 0 ''created'' []"
  let ?gh = "Path ''/usr/bin/gh''"
  have a: "files (demo_world nb_fresh) demo_file = Some nb_fresh"
    by (simp add: demo_world_def)
  have b: "gist_url_from_notebook nb_fresh = Inr None"
    by (simp add: gist_url_from_notebook_def nb_fresh_def code_cell_def)
  have c: "exit_status (client ?env (demo_world nb_fresh)
             [P ?gh, S ''gist'', S ''create'', P demo_file]) = 0"
    by (simp add: demo_env_def)
  have d: "find_gist_id (strip (out_text (client ?env (demo_world nb_fresh)
             [P ?gh, S ''gist'', S ''create'', P demo_file]))) = None"
    by (simp add: demo_env_def strip_def is_space_def find_gist_id_examples)
  from create_without_reference [OF a b c d, of True "[]"] a b show ?thesis
    by (simp add: demo_world_def Let_def)
qed

text \<open>
  The amended C9 at a client that exits with status 1.
\<close>

theorem client_failure_witness:
  "exit_status (client (demo_env 1 ''out'' ''boom'') (demo_world nb_linked)
      [P (Path ''/usr/bin/gh''), S ''gist'', S ''create'', P demo_file]) \<noteq> 0 \<and>
   create_gist (demo_env 1 ''out'' ''boom'') (Path ''/usr/bin/gh'') [demo_file]
       (demo_world nb_linked) =
     (Inl (CalledProcessError 1
             [P (Path ''/usr/bin/gh''), S ''gist'', S ''create'', P demo_file]
             (Some ''out'') None),
      \<lparr>files = [demo_file \<mapsto> nb_linked],
       calls = [[P (Path ''/usr/bin/gh''), S ''gist'', S ''create'', P demo_file]]\<rparr>)"
proof -
  let ?env = "demo_env 1 ''out'' ''boom''"
  let ?argv = "[P (Path ''/usr/bin/gh''), S ''gist'', S ''create'', P demo_file]"
  have a: "exit_status (client ?env (demo_world nb_linked) ?argv) \<noteq> 0"
    by (simp add: demo_env_def)
  from client_failure [of "Path ''/usr/bin/gh''" "[]" demo_file ?env "demo_world nb_linked"
      "[demo_file]"] a
  show ?thesis
    by (simp add: demo_env_def demo_world_def Let_def)
qed

text \<open>
  Claim C9 as stated fails: the client wrote \<open>boom\<close> to its standard error and exited
  with status 1, and the error raised carries no standard-error text.
\<close>

theorem client_failure_counterexample:
  "err_text (client (demo_env 1 ''out'' ''boom'') (demo_world nb_linked)
      [P (Path ''/usr/bin/gh''), S ''gist'', S ''edit'', S ''https://gist.github.com/abc123'',
       S ''-f'', P demo_file, S ''demo.ipynb'']) = ''boom'' \<and>
   fst (update_gist_file (demo_env 1 ''out'' ''boom'') (Path ''/usr/bin/gh'')
          ''https://gist.github.com/abc123'' demo_file (demo_world nb_linked)) =
     Inl (CalledProcessError 1
            [P (Path ''/usr/bin/gh''), S ''gist'', S ''edit'',
             S ''https://gist.github.com/abc123'', S ''-f'', P demo_file, S ''demo.ipynb'']
            (Some ''out'') None)"
  by (simp add: update_gist_file_def subprocess_run_def demo_env_def demo_file_def Let_def)

end
